theory Spec2Isabelle
  imports Complex_Main "HOL-Library.Log_Nat"
begin

section \<open>GitHubScreenshoter: the tree walker and the text rasterizer of main.py\<close>

text \<open>
  The program is modelled function by function. Effects are explicit: a \<open>state\<close> holds the
  chronological log of the requests, pauses and file-system calls made so far together with
  the directories and image files that exist; the remote side and the installed typefaces
  are the \<open>env\<close> the program runs in. Console output is not part of the model.
\<close>

subsection \<open>Configuration\<close>

definition OUTPUT_DIR :: string where
  "OUTPUT_DIR = ''screenshots''"

definition FILE_EXTENSIONS :: "string list" where
  "FILE_EXTENSIONS =
     [''.txt'', ''.py'', ''.js'', ''.html'', ''.css'', ''.java'', ''.c'', ''.cpp'', ''.go'',
      ''.php'', ''.rb'', ''.rs'', ''.swift'', ''.kt'', ''.ts'']"

definition MAX_RETRIES :: nat where
  "MAX_RETRIES = 3"

definition FONT_SIZE :: int where
  "FONT_SIZE = 15"

definition PADDING :: int where
  "PADDING = 20"

definition LINE_SPACING :: int where
  "LINE_SPACING = 5"

subsection \<open>Python strings\<close>

text \<open>
  Names, URLs and paths are only compared, concatenated and tested for a suffix, so they
  are \<open>string\<close>s. A downloaded body is a Python \<open>str\<close>, a sequence of Unicode code points;
  \<open>str.strip\<close> and \<open>str.splitlines\<close> classify code points beyond one byte, so a body is a
  list of code points.
\<close>

type_synonym ustr = "nat list"

text \<open>The code points \<open>str.isspace\<close> accepts; \<open>strip()\<close> removes them at both ends.\<close>

definition is_space :: "nat \<Rightarrow> bool" where
  "is_space c \<longleftrightarrow>
     (9 \<le> c \<and> c \<le> 13) \<or> (28 \<le> c \<and> c \<le> 32) \<or> c = 133 \<or> c = 160 \<or> c = 5760 \<or>
     (8192 \<le> c \<and> c \<le> 8202) \<or> c = 8232 \<or> c = 8233 \<or> c = 8239 \<or> c = 8287 \<or> c = 12288"

definition strip :: "ustr \<Rightarrow> ustr" where
  "strip s = rev (dropWhile is_space (rev (dropWhile is_space s)))"

text \<open>
  The line boundaries of \<open>str.splitlines\<close>: LF, VT, FF, CR, FS, GS, RS, NEL, LS, PS, with
  CR LF taken as one boundary. A boundary at the very end opens no further line.
\<close>

definition is_linebreak :: "nat \<Rightarrow> bool" where
  "is_linebreak c \<longleftrightarrow>
     (10 \<le> c \<and> c \<le> 13) \<or> (28 \<le> c \<and> c \<le> 30) \<or> c = 133 \<or> c = 8232 \<or> c = 8233"

fun splitlines_from :: "ustr \<Rightarrow> ustr \<Rightarrow> ustr list" where
  "splitlines_from cur [] = (if cur = [] then [] else [cur])"
| "splitlines_from cur [c] = (if is_linebreak c then [cur] else [cur @ [c]])"
| "splitlines_from cur (c # d # ds) =
     (if c = 13 \<and> d = 10 then cur # splitlines_from [] ds
      else if is_linebreak c then cur # splitlines_from [] (d # ds)
      else splitlines_from (cur @ [c]) (d # ds))"

definition splitlines :: "ustr \<Rightarrow> ustr list" where
  "splitlines s = splitlines_from [] s"

definition endswith :: "string \<Rightarrow> string \<Rightarrow> bool" where
  "endswith s suffix \<longleftrightarrow> take (length suffix) (rev s) = rev suffix"

text \<open>
  \<open>os.path.join\<close> of two components, as \<open>posixpath\<close> defines it: an absolute second
  component replaces the first, and a separator is inserted unless the first component is
  empty or already ends with one.
\<close>

definition path_join :: "string \<Rightarrow> string \<Rightarrow> string" where
  "path_join a b =
     (if b \<noteq> [] \<and> hd b = CHR ''/'' then b
      else if a = [] \<or> last a = CHR ''/'' then a @ b
      else a @ ''/'' @ b)"

text \<open>\<open>str.replace(old, new)\<close> for a non-empty \<open>old\<close>: every occurrence, left to right.\<close>

fun replace_in :: "string \<Rightarrow> string \<Rightarrow> nat \<Rightarrow> string \<Rightarrow> string" where
  "replace_in old new skip [] = []"
| "replace_in old new (Suc k) (c # cs) = replace_in old new k cs"
| "replace_in old new 0 (c # cs) =
     (if take (length old) (c # cs) = old
      then new @ replace_in old new (length old - 1) cs
      else c # replace_in old new 0 cs)"

definition replace :: "string \<Rightarrow> string \<Rightarrow> string \<Rightarrow> string" where
  "replace s old new = replace_in old new 0 s"

subsection \<open>Python numbers\<close>

text \<open>
  A Python number is an unbounded \<open>int\<close> or a \<open>float\<close>. A float is an IEEE 754 binary64
  value, modelled by the number it denotes; every float operation returns the exact
  result rounded to 53 significant bits, ties to even (\<open>fl\<close>). Infinities, NaN and
  subnormal numbers lie outside the magnitudes a line count or a pixel height can reach
  and are not modelled.
\<close>

definition pow2 :: "int \<Rightarrow> real" where
  "pow2 e = (if 0 \<le> e then 2 ^ nat e else 1 / 2 ^ nat (- e))"

text \<open>The binary exponent of a positive number: \<open>pow2 (expo x) \<le> x < pow2 (expo x + 1)\<close>.\<close>

definition expo :: "real \<Rightarrow> int" where
  "expo x = (if 1 \<le> x then bitlen \<lfloor>x\<rfloor> - 1 else - bitlen (\<lceil>1 / x\<rceil> - 1))"

text \<open>Rounding to the nearest integer, a tie going to the even neighbour.\<close>

definition rne :: "real \<Rightarrow> int" where
  "rne x =
     (let f = \<lfloor>x\<rfloor>; r = x - of_int f
      in if r < 1 / 2 then f else if 1 / 2 < r then f + 1 else if even f then f else f + 1)"

definition fl :: "real \<Rightarrow> real" where
  "fl x =
     (if x = 0 then 0
      else let e = expo \<bar>x\<bar> - 52 in of_int (rne (x / pow2 e)) * pow2 e)"

datatype pynum = PyInt int | PyFloat real

fun to_float :: "pynum \<Rightarrow> real" where
  "to_float (PyInt i) = fl (of_int i)"
| "to_float (PyFloat x) = x"

fun py_add :: "pynum \<Rightarrow> pynum \<Rightarrow> pynum" where
  "py_add (PyInt i) (PyInt j) = PyInt (i + j)"
| "py_add a b = PyFloat (fl (to_float a + to_float b))"

fun py_mul :: "pynum \<Rightarrow> pynum \<Rightarrow> pynum" where
  "py_mul (PyInt i) (PyInt j) = PyInt (i * j)"
| "py_mul a b = PyFloat (fl (to_float a * to_float b))"

text \<open>True division \<open>/\<close> of two ints, the divisor not zero: the correctly rounded quotient.\<close>

definition py_truediv :: "int \<Rightarrow> int \<Rightarrow> pynum" where
  "py_truediv i j = PyFloat (fl (of_int i / of_int j))"

text \<open>\<open>int(x)\<close> truncates a float towards zero.\<close>

fun py_int :: "pynum \<Rightarrow> int" where
  "py_int (PyInt i) = i"
| "py_int (PyFloat x) = (if 0 \<le> x then \<lfloor>x\<rfloor> else \<lceil>x\<rceil>)"

subsection \<open>Typefaces, images and the file system\<close>

text \<open>
  A typeface is what Pillow's font object offers the rasterizer: \<open>getbbox\<close> (absent in an
  old Pillow, where the call raises AttributeError) and the older \<open>getsize\<close>.
\<close>

record font =
  getbbox :: "(ustr \<Rightarrow> int \<times> int \<times> int \<times> int) option"
  getsize :: "ustr \<Rightarrow> int \<times> int"

text \<open>
  An image is the canvas \<open>Image.new\<close> made and the \<open>draw.text\<close> calls painted on it: the
  position, the line, and the fill. The bytes the encoder writes for it are not modelled.
\<close>

record image =
  mode :: string
  image_size :: "int \<times> int"
  color :: string
  face :: font
  texts :: "((int \<times> pynum) \<times> ustr \<times> string) list"

type_synonym headers = "(string \<times> string) list"

record file_info =
  entry_type :: string
  name :: string
  url :: string
  download_url :: string

datatype event =
    Get string headers
  | Sleep nat
  | Makedirs string
  | Save string

text \<open>
  What \<open>requests.get\<close> gives: a raised \<open>RequestException\<close>, or a response with its status
  code, its decoded body and what \<open>response.json()\<close> makes of that body. The listing
  endpoint answers with a JSON array of entries, so a body that parses is the list of its
  entries; for a body that is not JSON the value is \<open>None\<close>: there \<open>response.json()\<close> raises
  \<open>JSONDecodeError\<close>, which is a \<open>RequestException\<close>.
\<close>

datatype reply =
    RequestException
  | Response (status_code: int) (resp_text: ustr) (resp_json: "file_info list option")

record state =
  trace :: "event list"
  dirs :: "string set"
  files :: "string \<rightharpoonup> image"

text \<open>
  A call that raises returns \<open>Inl\<close> of the exception and the state at the raise; one that
  returns gives \<open>Inr\<close> of the state it leaves.
\<close>

datatype error =
    RequestError
  | ValueError
  | OverflowError
  | MemoryError
  | FileNotFoundError
  | NotADirectoryError
  | IsADirectoryError
  | FileExistsError
  | PermissionError
  | OSError

text \<open>The calls into Pillow and the operating system that can fail for reasons of their own.\<close>

datatype call =
    Image_new int int
  | Os_makedirs string
  | Image_save string

text \<open>
  The remote side answers a request as a function of everything that happened before it,
  so a retry may be answered differently from the first attempt. \<open>truetype\<close> is
  \<open>ImageFont.truetype\<close> (\<open>None\<close> is its IOError), \<open>load_default\<close> the built-in face.
  \<open>refuses\<close> is the exception a library call raises whatever the directory tree looks
  like: no memory for a canvas of that size, no encoder registered for the extension of
  the path, no permission, no space left on the device.
\<close>

record env =
  net :: "event list \<Rightarrow> string \<Rightarrow> headers \<Rightarrow> reply"
  truetype :: "string \<Rightarrow> int \<Rightarrow> font option"
  load_default :: font
  refuses :: "call \<Rightarrow> error option"

text \<open>
  Paths are compared up to trailing separators. \<open>parent\<close> is \<open>os.path.dirname\<close>: the path
  without its last component. The empty path stands for the current directory, which
  exists, as does the root.
\<close>

definition rstrip_sep :: "string \<Rightarrow> string" where
  "rstrip_sep p = rev (dropWhile (\<lambda>c. c = CHR ''/'') (rev p))"

definition parent :: "string \<Rightarrow> string" where
  "parent p = rstrip_sep (rev (dropWhile (\<lambda>c. c \<noteq> CHR ''/'') (rev p)))"

definition is_dir :: "state \<Rightarrow> string \<Rightarrow> bool" where
  "is_dir st p \<longleftrightarrow> rstrip_sep p = [] \<or> rstrip_sep p \<in> dirs st"

definition path_exists :: "state \<Rightarrow> string \<Rightarrow> bool" where
  "path_exists st p \<longleftrightarrow> (p \<noteq> [] \<and> is_dir st p) \<or> files st p \<noteq> None"

text \<open>The directory itself and its ancestors, the shortest first.\<close>

definition dir_chain :: "string \<Rightarrow> string list" where
  "dir_chain q = [take k q. k \<leftarrow> [1..<Suc (length q)], k = length q \<or> q ! k = CHR ''/'']"

text \<open>
  \<open>os.makedirs\<close> creates the directory and every missing ancestor. It raises
  FileExistsError when the path exists already, NotADirectoryError when an ancestor is a
  regular file, and FileNotFoundError for the empty path.
\<close>

definition makedirs :: "env \<Rightarrow> string \<Rightarrow> state \<Rightarrow> (error \<times> state) + state" where
  "makedirs env p st =
     (case refuses env (Os_makedirs p) of
        Some e \<Rightarrow> Inl (e, st)
      | None \<Rightarrow>
          if path_exists st p \<or> files st (rstrip_sep p) \<noteq> None then Inl (FileExistsError, st)
          else if p = [] then Inl (FileNotFoundError, st)
          else if list_ex (\<lambda>a. files st a \<noteq> None) (dir_chain (rstrip_sep p))
            then Inl (NotADirectoryError, st)
          else Inr (st\<lparr>trace := trace st @ [Makedirs p],
                       dirs := dirs st \<union> set (dir_chain (rstrip_sep p))\<rparr>))"

text \<open>
  \<open>image.save\<close> opens the file for writing and encodes the canvas into it. The open
  raises NotADirectoryError when a component of the path is a regular file,
  FileNotFoundError when the directory of the path does not exist, and IsADirectoryError
  when the path is a directory; the encoder raises ValueError for a canvas without
  pixels, and the file opened for it is removed again. Nothing creates the directory.
\<close>

definition save :: "env \<Rightarrow> image \<Rightarrow> string \<Rightarrow> state \<Rightarrow> (error \<times> state) + state" where
  "save env im p st =
     (case refuses env (Image_save p) of
        Some e \<Rightarrow> Inl (e, st)
      | None \<Rightarrow>
          if \<not> is_dir st (parent p) then
            Inl (if list_ex (\<lambda>a. files st a \<noteq> None) (dir_chain (parent p))
                 then NotADirectoryError else FileNotFoundError, st)
          else if is_dir st p then Inl (IsADirectoryError, st)
          else if fst (image_size im) = 0 \<or> snd (image_size im) = 0 then Inl (ValueError, st)
          else Inr (st\<lparr>trace := trace st @ [Save p], files := (files st)(p \<mapsto> im)\<rparr>))"

subsection \<open>The text rasterizer\<close>

definition load_font :: "env \<Rightarrow> font" where
  "load_font env =
     (case truetype env ''cour.ttf'' FONT_SIZE of Some f \<Rightarrow> f | None \<Rightarrow> load_default env)"

definition measure_line :: "font \<Rightarrow> ustr \<Rightarrow> int \<times> int" where
  "measure_line f line =
     (case getbbox f of
        Some bbox \<Rightarrow> (case bbox line of (x0, y0, x1, y1) \<Rightarrow> (x1 - x0, y1 - y0))
      | None \<Rightarrow> getsize f line)"

text \<open>The measuring loop, with its two accumulators \<open>max_width\<close> and \<open>line_heights\<close>.\<close>

fun measure_loop :: "font \<Rightarrow> ustr list \<Rightarrow> int \<Rightarrow> int list \<Rightarrow> int \<times> int list" where
  "measure_loop f [] max_width line_heights = (max_width, line_heights)"
| "measure_loop f (line # lines) max_width line_heights =
     (case measure_line f line of
        (line_width, line_height) \<Rightarrow>
          measure_loop f lines
            (if line_width > max_width then line_width else max_width)
            (line_heights @ [line_height]))"

definition avg_line_height :: "int list \<Rightarrow> pynum" where
  "avg_line_height line_heights =
     (if line_heights \<noteq> [] then py_truediv (sum_list line_heights) (int (length line_heights))
      else PyInt FONT_SIZE)"

definition total_height :: "font \<Rightarrow> ustr list \<Rightarrow> int" where
  "total_height f lines =
     py_int (py_mul
       (py_add (avg_line_height (snd (measure_loop f lines 0 []))) (PyInt LINE_SPACING))
       (PyInt (int (length lines))))"

definition img_width :: "font \<Rightarrow> ustr list \<Rightarrow> int" where
  "img_width f lines = fst (measure_loop f lines 0 []) + PADDING * 2"

definition img_height :: "font \<Rightarrow> ustr list \<Rightarrow> int" where
  "img_height f lines = total_height f lines + PADDING * 2"

text \<open>The drawing loop: \<open>y_text\<close> starts at the padding and advances by the same step.\<close>

fun draw_loop :: "ustr list \<Rightarrow> pynum \<Rightarrow> pynum \<Rightarrow> ((int \<times> pynum) \<times> ustr \<times> string) list" where
  "draw_loop [] y_text avg = []"
| "draw_loop (line # lines) y_text avg =
     ((PADDING, y_text), line, ''black'') #
       draw_loop lines (py_add y_text (py_add avg (PyInt LINE_SPACING))) avg"

text \<open>The white canvas of the computed size with every line painted on it.\<close>

definition painted :: "font \<Rightarrow> ustr list \<Rightarrow> image" where
  "painted f lines =
     \<lparr>mode = ''RGB'', image_size = (img_width f lines, img_height f lines),
      color = ''white'', face = f,
      texts = draw_loop lines (PyInt PADDING)
                (avg_line_height (snd (measure_loop f lines 0 [])))\<rparr>"

text \<open>The greatest value of a C \<open>int\<close>, the type Pillow's core takes a size in.\<close>

definition C_INT_MAX :: int where
  "C_INT_MAX = 2147483647"

text \<open>
  \<open>Image.new\<close> raises ValueError for a negative width or height and OverflowError for one
  that does not fit a C \<open>int\<close>, and it can fail to allocate the canvas. The lines are
  painted on the canvas, and \<open>image.save\<close> is the last statement: what it raises, the
  function raises.
\<close>

definition create_image_from_text ::
  "env \<Rightarrow> ustr \<Rightarrow> string \<Rightarrow> state \<Rightarrow> (error \<times> state) + state"
where
  "create_image_from_text env content output_path st =
     (let f = load_font env;
          lines = splitlines content;
          img_w = img_width f lines;
          img_h = img_height f lines
      in if img_w < 0 \<or> img_h < 0 then Inl (ValueError, st)
         else if C_INT_MAX < img_w \<or> C_INT_MAX < img_h then Inl (OverflowError, st)
         else case refuses env (Image_new img_w img_h) of
                Some e \<Rightarrow> Inl (e, st)
              | None \<Rightarrow> save env (painted f lines) output_path st)"

subsection \<open>The tree walker\<close>

text \<open>Python's truth value of the optional credential: \<open>None\<close> and the empty string are false.\<close>

definition request_headers :: "string option \<Rightarrow> headers" where
  "request_headers token =
     [(''User-Agent'', ''GitHubScreenshoter'')] @
     (case token of
        None \<Rightarrow> []
      | Some t \<Rightarrow> if t \<noteq> [] then [(''Authorization'', ''token '' @ t)] else [])"

definition pause :: "nat \<Rightarrow> nat \<Rightarrow> state \<Rightarrow> state" where
  "pause retries attempt st =
     (if int attempt < int retries - 1 then st\<lparr>trace := trace st @ [Sleep 1]\<rparr> else st)"

text \<open>
  The loop \<open>for attempt in range(retries)\<close>, over the attempts still to make. The request
  and \<open>response.json()\<close> both stand inside the \<open>try\<close>: a raised request, a status other
  than 200 and a body of status 200 that does not parse all lead to the pause and the next
  attempt.
\<close>

fun fetch_attempts ::
  "env \<Rightarrow> string \<Rightarrow> headers \<Rightarrow> nat \<Rightarrow> nat list \<Rightarrow> state \<Rightarrow> file_info list option \<times> state"
where
  "fetch_attempts env u hs retries [] st = (None, st)"
| "fetch_attempts env u hs retries (attempt # rest) st =
     (case net env (trace st) u hs of
        Response sc body js \<Rightarrow>
          if sc = 200 then
            (case js of
               Some listing \<Rightarrow> (Some listing, st\<lparr>trace := trace st @ [Get u hs]\<rparr>)
             | None \<Rightarrow>
                 fetch_attempts env u hs retries rest
                   (pause retries attempt (st\<lparr>trace := trace st @ [Get u hs]\<rparr>)))
          else fetch_attempts env u hs retries rest
                 (pause retries attempt (st\<lparr>trace := trace st @ [Get u hs]\<rparr>))
      | RequestException \<Rightarrow>
          fetch_attempts env u hs retries rest
            (pause retries attempt (st\<lparr>trace := trace st @ [Get u hs]\<rparr>)))"

definition get_files_from_github ::
  "env \<Rightarrow> string \<Rightarrow> string option \<Rightarrow> nat \<Rightarrow> state \<Rightarrow> file_info list option \<times> state"
where
  "get_files_from_github env u token retries st =
     fetch_attempts env u (request_headers token) retries [0..<retries] st"

text \<open>
  \<open>process_files\<close> recurses into whatever the remote side lists, and nothing bounds the
  depth of that, so the model carries the number of nested calls it may still make: \<open>None\<close>
  is a walk that needed more. The download request is made outside any \<open>try\<close>, so a
  \<open>RequestException\<close> there ends the whole run, and so does whatever \<open>os.makedirs\<close> or the
  rasterizer raises.
\<close>

fun process_files ::
  "env \<Rightarrow> nat \<Rightarrow> file_info list \<Rightarrow> string option \<Rightarrow> string \<Rightarrow> state
     \<Rightarrow> ((error \<times> state) + state) option"
where
  "process_files env 0 fs token path st = None"
| "process_files env (Suc depth) [] token path st = Some (Inr st)"
| "process_files env (Suc depth) (file_info # fs) token path st =
     (if entry_type file_info = ''file''
         \<and> list_ex (\<lambda>ext. endswith (name file_info) ext) FILE_EXTENSIONS
      then
        (let hs = [(''User-Agent'', ''GitHubScreenshoter'')];
             st1 = st\<lparr>trace := trace st @ [Get (download_url file_info) hs]\<rparr>
         in case net env (trace st) (download_url file_info) hs of
              RequestException \<Rightarrow> Some (Inl (RequestError, st1))
            | Response sc file_content js \<Rightarrow>
                if sc = 200 then
                  if strip file_content \<noteq> [] then
                    (let output_dir = path_join OUTPUT_DIR path
                     in case (if \<not> path_exists st1 output_dir
                              then makedirs env output_dir st1 else Inr st1) of
                          Inl e \<Rightarrow> Some (Inl e)
                        | Inr st2 \<Rightarrow>
                            (let output_path = path_join output_dir (name file_info @ ''.png'')
                             in case create_image_from_text env file_content output_path st2 of
                                  Inl e \<Rightarrow> Some (Inl e)
                                | Inr st3 \<Rightarrow> process_files env (Suc depth) fs token path st3))
                  else process_files env (Suc depth) fs token path st1
                else process_files env (Suc depth) fs token path st1)
      else if entry_type file_info = ''dir'' then
        (case get_files_from_github env (url file_info) token MAX_RETRIES st of
           (Some (sub # subs), st1) \<Rightarrow>
             (case process_files env depth (sub # subs) token
                     (path_join path (name file_info)) st1 of
                None \<Rightarrow> None
              | Some (Inl e) \<Rightarrow> Some (Inl e)
              | Some (Inr st2) \<Rightarrow> process_files env (Suc depth) fs token path st2)
         | (_, st1) \<Rightarrow> process_files env (Suc depth) fs token path st1)
      else process_files env (Suc depth) fs token path st)"

definition main ::
  "env \<Rightarrow> nat \<Rightarrow> string \<Rightarrow> string option \<Rightarrow> state \<Rightarrow> ((error \<times> state) + state) option"
where
  "main env depth repo_url token st =
     (let repo_path = replace repo_url ''https://github.com/'' '''';
          api_url = ''https://api.github.com/repos/'' @ repo_path @ ''/contents''
      in case get_files_from_github env api_url token MAX_RETRIES st of
           (Some (f # fs), st1) \<Rightarrow> process_files env depth (f # fs) token '''' st1
         | (_, st1) \<Rightarrow> Some (Inr st1))"

subsection \<open>Notions used in the statements\<close>

text \<open>An attempt that returns a success status: a response whose status code is 200.\<close>

definition success_status :: "reply \<Rightarrow> bool" where
  "success_status r = (case r of RequestException \<Rightarrow> False | Response sc body js \<Rightarrow> sc = 200)"

text \<open>
  A listing attempt succeeds when it returns a response of status 200 whose body parses.
\<close>

definition succeeded :: "reply \<Rightarrow> bool" where
  "succeeded r =
     (case r of RequestException \<Rightarrow> False | Response sc body js \<Rightarrow> sc = 200 \<and> js \<noteq> None)"

text \<open>
  The canvas height as the specification words it, in exact arithmetic: the average
  measured line height (the nominal font size for a text without lines) plus the line
  spacing, times the number of lines, plus two paddings.
\<close>

definition stated_height :: "font \<Rightarrow> ustr list \<Rightarrow> real" where
  "stated_height f lines =
     ((if lines = [] then of_int FONT_SIZE
       else of_int (sum_list (map (\<lambda>l. snd (measure_line f l)) lines)) / of_nat (length lines))
      + of_int LINE_SPACING) * of_nat (length lines) + 2 * of_int PADDING"

text \<open>The state a finished call leaves, whether it returned or raised.\<close>

fun final_state :: "(error \<times> state) + state \<Rightarrow> state" where
  "final_state (Inl (e, s)) = s"
| "final_state (Inr s) = s"

text \<open>The header sets of the requests in a log, in the order they were sent.\<close>

fun sent :: "event list \<Rightarrow> headers list" where
  "sent [] = []"
| "sent (Get u hs # es) = hs # sent es"
| "sent (Sleep n # es) = sent es"
| "sent (Makedirs p # es) = sent es"
| "sent (Save p # es) = sent es"

text \<open>
  The headers of a request as the specification words them: the fixed User-Agent, and an
  Authorization header \<open>token <value>\<close> exactly when a credential was supplied.
\<close>

definition stated_headers :: "string option \<Rightarrow> headers \<Rightarrow> bool" where
  "stated_headers token hs \<longleftrightarrow>
     map_of hs ''User-Agent'' = Some ''GitHubScreenshoter''
     \<and> map_of hs ''Authorization'' = map_option (\<lambda>t. ''token '' @ t) token"

text \<open>
  What every request of the program satisfies: the fixed User-Agent, and an Authorization
  header, if there is one, that is \<open>token <value>\<close> for the non-empty credential supplied.
\<close>

definition credential_headers :: "string option \<Rightarrow> headers \<Rightarrow> bool" where
  "credential_headers token hs \<longleftrightarrow>
     map_of hs ''User-Agent'' = Some ''GitHubScreenshoter''
     \<and> (case map_of hs ''Authorization'' of
          None \<Rightarrow> True
        | Some v \<Rightarrow> (case token of None \<Rightarrow> False | Some t \<Rightarrow> t \<noteq> [] \<and> v = ''token '' @ t))"


subsection \<open>A small remote repository and a typeface, for concrete runs\<close>

text \<open>
  The sample face measures nine pixels per character; a line of full stops alone spans
  the rows 10 to 12, any other line the rows 5 to 12, and the empty line has the empty box.
\<close>

definition sample_face :: font where
  "sample_face =
     \<lparr>getbbox = Some (\<lambda>line.
        if line = [] then (0, 0, 0, 0)
        else (0, if list_all (\<lambda>c. c = 46) line then 10 else 5, 9 * int (length line), 12)),
      getsize = (\<lambda>line. (9 * int (length line), 12))\<rparr>"

text \<open>
  The face of an old Pillow: no \<open>getbbox\<close>, and \<open>getsize\<close> reports the full line height
  of 17 rows for every line.
\<close>

definition legacy_face :: font where
  "legacy_face = \<lparr>getbbox = None, getsize = (\<lambda>line. (9 * int (length line), 17))\<rparr>"

definition fresh :: state where
  "fresh = \<lparr>trace = [], dirs = {}, files = Map.empty\<rparr>"


text \<open>The remote side that never answers: every request raises.\<close>

definition offline :: env where
  "offline =
     \<lparr>net = (\<lambda>h u hs. RequestException), truetype = (\<lambda>n s. None),
      load_default = sample_face, refuses = (\<lambda>c. None)\<rparr>"

text \<open>
  A captive portal: every request is answered with status 200 and the page \<open><html>\<close>,
  which is not JSON.
\<close>

definition portal :: env where
  "portal =
     \<lparr>net = (\<lambda>h u hs. Response 200 [60, 104, 116, 109, 108, 62] None),
      truetype = (\<lambda>n s. None), load_default = sample_face, refuses = (\<lambda>c. None)\<rparr>"

definition main_py :: file_info where
  "main_py = \<lparr>entry_type = ''file'', name = ''main.py'', url = ''api/main.py'',
               download_url = ''raw/main.py''\<rparr>"

definition logo_png :: file_info where
  "logo_png = \<lparr>entry_type = ''file'', name = ''logo.png'', url = ''api/logo.png'',
                download_url = ''raw/logo.png''\<rparr>"

definition blank_txt :: file_info where
  "blank_txt = \<lparr>entry_type = ''file'', name = ''blank.txt'', url = ''api/blank.txt'',
                 download_url = ''raw/blank.txt''\<rparr>"

definition src_dir :: file_info where
  "src_dir = \<lparr>entry_type = ''dir'', name = ''src'', url = ''api/src'',
               download_url = ''''\<rparr>"

definition utils_dir :: file_info where
  "utils_dir = \<lparr>entry_type = ''dir'', name = ''utils'', url = ''api/src/utils'',
                 download_url = ''''\<rparr>"

definition empty_dir :: file_info where
  "empty_dir = \<lparr>entry_type = ''dir'', name = ''empty'', url = ''api/empty'',
                 download_url = ''''\<rparr>"

definition assets_dir :: file_info where
  "assets_dir = \<lparr>entry_type = ''dir'', name = ''assets'', url = ''api/assets'',
                  download_url = ''''\<rparr>"

definition x_py :: file_info where
  "x_py = \<lparr>entry_type = ''file'', name = ''x.py'', url = ''api/src/utils/x.py'',
            download_url = ''raw/src/utils/x.py''\<rparr>"

text \<open>
  The sample repository: \<open>main.py\<close> holds \<open>print("hi")\<close> and a line feed, \<open>blank.txt\<close> a
  space, a line feed and a tab, \<open>src/utils/x.py\<close> the three lines \<open>run\<close>, \<open>now\<close> and
  \<open>...\<close>; the directory \<open>empty\<close> lists nothing and \<open>assets\<close> lists the picture only.
\<close>

definition sample_net :: "event list \<Rightarrow> string \<Rightarrow> headers \<Rightarrow> reply" where
  "sample_net h u hs =
     (if u = ''https://api.github.com/repos/o/r/contents''
        then Response 200 [] (Some [main_py, logo_png, blank_txt, src_dir, empty_dir])
      else if u = ''api/src'' then Response 200 [] (Some [utils_dir])
      else if u = ''api/src/utils'' then Response 200 [] (Some [x_py])
      else if u = ''api/empty'' then Response 200 [] (Some [])
      else if u = ''api/assets'' then Response 200 [] (Some [logo_png])
      else if u = ''raw/main.py''
        then Response 200 [112, 114, 105, 110, 116, 40, 34, 104, 105, 34, 41, 10] None
      else if u = ''raw/blank.txt'' then Response 200 [32, 10, 9] None
      else if u = ''raw/src/utils/x.py''
        then Response 200 [114, 117, 110, 10, 110, 111, 119, 10, 46, 46, 46] None
      else Response 404 [] None)"

definition sample_env :: env where
  "sample_env =
     \<lparr>net = sample_net, truetype = (\<lambda>n s. None), load_default = sample_face,
      refuses = (\<lambda>c. None)\<rparr>"

section \<open>Properties\<close>

subsection \<open>Floating-point rounding\<close>

lemma pow2_powi: "pow2 e = 2 powi e"
  by (simp add: pow2_def power_int_def inverse_eq_divide power_one_over)

lemma pow2_pos: "0 < pow2 e"
  by (simp add: pow2_powi)

lemma pow2_add: "pow2 (a + b) = pow2 a * pow2 b"
  by (simp add: pow2_powi power_int_add)

lemma pow2_mono: "a \<le> b \<Longrightarrow> pow2 a \<le> pow2 b"
  by (simp add: pow2_powi power_int_increasing)

lemma rne_of_int: "rne (of_int k) = k"
  by (simp add: rne_def)

lemma rne_lower: "\<lfloor>x\<rfloor> \<le> rne x"
  by (simp add: rne_def Let_def)

lemma rne_upper: "rne x \<le> \<lfloor>x\<rfloor> + 1"
  by (simp add: rne_def Let_def)

lemma rne_mono: "x \<le> y \<Longrightarrow> rne x \<le> rne y"
proof -
  assume xy: "x \<le> y"
  then have fl: "\<lfloor>x\<rfloor> \<le> \<lfloor>y\<rfloor>" by (rule floor_mono)
  show ?thesis
  proof (cases "\<lfloor>x\<rfloor> = \<lfloor>y\<rfloor>")
    case True
    with xy show ?thesis by (auto simp: rne_def Let_def)
  next
    case False
    with fl have "\<lfloor>x\<rfloor> + 1 \<le> \<lfloor>y\<rfloor>" by simp
    with rne_upper[of x] rne_lower[of y] show ?thesis by linarith
  qed
qed

lemma expo_bounds:
  assumes "0 < x"
  shows "pow2 (expo x) \<le> x \<and> x < pow2 (expo x + 1)"
proof (cases "1 \<le> x")
  case True
  then have p: "0 < \<lfloor>x\<rfloor>" by simp
  from bitlen_bounds[OF p] have b1: "2 ^ nat (bitlen \<lfloor>x\<rfloor> - 1) \<le> \<lfloor>x\<rfloor>"
    and b2: "\<lfloor>x\<rfloor> < 2 ^ nat (bitlen \<lfloor>x\<rfloor>)" by auto
  from p have bl: "1 \<le> bitlen \<lfloor>x\<rfloor>" using bitlen_eq_zero_iff[of "\<lfloor>x\<rfloor>"] bitlen_nonneg[of "\<lfloor>x\<rfloor>"]
    by linarith
  have e: "expo x = bitlen \<lfloor>x\<rfloor> - 1" using True by (simp add: expo_def)
  from b1 have "(2::real) ^ nat (bitlen \<lfloor>x\<rfloor> - 1) \<le> of_int \<lfloor>x\<rfloor>"
    by (metis of_int_le_iff of_int_numeral of_int_power)
  also have "\<dots> \<le> x" by simp
  finally have lo: "pow2 (expo x) \<le> x" using bl by (simp add: e pow2_def)
  from b2 have "\<lfloor>x\<rfloor> + 1 \<le> 2 ^ nat (bitlen \<lfloor>x\<rfloor>)" by simp
  then have "of_int (\<lfloor>x\<rfloor> + 1) \<le> (2::real) ^ nat (bitlen \<lfloor>x\<rfloor>)"
    by (metis of_int_le_iff of_int_numeral of_int_power)
  moreover have "x < of_int (\<lfloor>x\<rfloor> + 1)" by linarith
  ultimately have "x < 2 ^ nat (bitlen \<lfloor>x\<rfloor>)" by linarith
  then have hi: "x < pow2 (expo x + 1)" using bl by (simp add: e pow2_def)
  from lo hi show ?thesis ..
next
  case False
  then have x1: "x < 1" by simp
  define y where "y = 1 / x"
  define m where "m = \<lceil>y\<rceil> - 1"
  from assms x1 have y1: "1 < y" by (simp add: y_def)
  then have "2 \<le> \<lceil>y\<rceil>" by (simp add: le_ceiling_iff)
  then have p: "0 < m" by (simp add: m_def)
  from bitlen_bounds[OF p] have b1: "2 ^ nat (bitlen m - 1) \<le> m"
    and b2: "m < 2 ^ nat (bitlen m)" by auto
  from p have bl: "1 \<le> bitlen m" using bitlen_eq_zero_iff[of m] bitlen_nonneg[of m]
    by linarith
  have e: "expo x = - bitlen m" using False by (simp add: expo_def m_def y_def)
  have my: "of_int m < y" unfolding m_def by linarith
  have ym: "y \<le> of_int m + 1" unfolding m_def by (simp add: le_of_int_ceiling)
  from b1 have "(2::real) ^ nat (bitlen m - 1) \<le> of_int m"
    by (metis of_int_le_iff of_int_numeral of_int_power)
  with my have lo': "2 ^ nat (bitlen m - 1) < y" by linarith
  from b2 have "m + 1 \<le> 2 ^ nat (bitlen m)" by simp
  then have "of_int (m + 1) \<le> (2::real) ^ nat (bitlen m)"
    by (metis of_int_le_iff of_int_numeral of_int_power)
  with ym have hi': "y \<le> 2 ^ nat (bitlen m)" by simp
  have xy: "x = 1 / y" using assms by (simp add: y_def)
  have ypos: "0 < y" using y1 by simp
  have pe: "pow2 (expo x) = 1 / 2 ^ nat (bitlen m)"
    using bl by (auto simp: e pow2_def)
  have "1 / 2 ^ nat (bitlen m) \<le> 1 / y"
    using hi' ypos by (simp add: frac_le)
  then have lo: "pow2 (expo x) \<le> x" unfolding pe by (simp add: xy)
  have "1 / y < 1 / 2 ^ nat (bitlen m - 1)"
    using lo' by (simp add: frac_less2)
  moreover have pe1: "pow2 (expo x + 1) = 1 / 2 ^ nat (bitlen m - 1)"
    using bl by (auto simp: e pow2_def)
  ultimately have hi: "x < pow2 (expo x + 1)" unfolding pe1 by (simp add: xy)
  from lo hi show ?thesis ..
qed


lemma expo_unique:
  assumes "pow2 e \<le> x" and "x < pow2 (e + 1)"
  shows "expo x = e"
proof -
  from assms(1) pow2_pos[of e] have xpos: "0 < x" by linarith
  from expo_bounds[OF xpos] have lo: "pow2 (expo x) \<le> x" and hi: "x < pow2 (expo x + 1)"
    by auto
  have "\<not> expo x < e"
  proof
    assume "expo x < e"
    then have "pow2 (expo x + 1) \<le> pow2 e" by (intro pow2_mono) simp
    with hi assms(1) show False by linarith
  qed
  moreover have "\<not> e < expo x"
  proof
    assume "e < expo x"
    then have "pow2 (e + 1) \<le> pow2 (expo x)" by (intro pow2_mono) simp
    with lo assms(2) show False by linarith
  qed
  ultimately show ?thesis by linarith
qed

lemma fl_eval:
  assumes "pow2 e \<le> \<bar>x\<bar>" and "\<bar>x\<bar> < pow2 (e + 1)"
  shows "fl x = of_int (rne (x / pow2 (e - 52))) * pow2 (e - 52)"
proof -
  from assms(1) pow2_pos[of e] have "x \<noteq> 0" by auto
  moreover have "expo \<bar>x\<bar> = e" using assms by (rule expo_unique)
  ultimately show ?thesis by (simp add: fl_def Let_def)
qed

lemma fl_zero: "fl 0 = 0"
  by (simp add: fl_def)

lemma fl_range:
  assumes "0 < x"
  shows "pow2 (expo x) \<le> fl x \<and> fl x \<le> pow2 (expo x + 1)"
proof -
  define u where "u = pow2 (expo x - 52)"
  have upos: "0 < u" by (simp add: u_def pow2_pos)
  from expo_bounds[OF assms] have lo: "pow2 (expo x) \<le> x" and hi: "x < pow2 (expo x + 1)"
    by auto
  have c52: "pow2 52 = 2 ^ 52" and c53: "pow2 53 = 2 ^ 53"
    by (simp_all add: pow2_def)
  have "pow2 (expo x) = pow2 52 * u"
    using pow2_add[of 52 "expo x - 52"] by (simp add: u_def)
  then have p52: "pow2 (expo x) = 2 ^ 52 * u" by (simp only: c52)
  have "pow2 (expo x + 1) = pow2 53 * u"
    using pow2_add[of 53 "expo x - 52"] by (simp add: u_def add.commute)
  then have p53: "pow2 (expo x + 1) = 2 ^ 53 * u" by (simp only: c53)
  have f: "fl x = of_int (rne (x / u)) * u"
    using assms by (simp add: fl_def u_def Let_def)
  from lo upos have "2 ^ 52 \<le> x / u" by (simp add: p52 pos_le_divide_eq)
  then have "rne (2 ^ 52) \<le> rne (x / u)" by (rule rne_mono)
  moreover have "rne (2 ^ 52) = 2 ^ 52" using rne_of_int[of "2 ^ 52"] by simp
  ultimately have a: "(2::int) ^ 52 \<le> rne (x / u)" by simp
  from hi upos have "x / u \<le> 2 ^ 53" by (simp add: p53 pos_divide_le_eq)
  then have "rne (x / u) \<le> rne (2 ^ 53)" by (rule rne_mono)
  moreover have "rne (2 ^ 53) = 2 ^ 53" using rne_of_int[of "2 ^ 53"] by simp
  ultimately have b: "rne (x / u) \<le> (2::int) ^ 53" by simp
  from a have "(2::real) ^ 52 \<le> of_int (rne (x / u))"
    by (metis of_int_le_iff of_int_numeral of_int_power)
  then have A: "pow2 (expo x) \<le> fl x" using upos by (simp add: f p52)
  from b have "of_int (rne (x / u)) \<le> (2::real) ^ 53"
    by (metis of_int_le_iff of_int_numeral of_int_power)
  then have B: "fl x \<le> pow2 (expo x + 1)" using upos by (simp add: f p53)
  from A B show ?thesis ..
qed

lemma fl_nonneg: "0 \<le> x \<Longrightarrow> 0 \<le> fl x"
proof (cases "x = 0")
  case True
  then show ?thesis by (simp add: fl_zero)
next
  case False
  assume "0 \<le> x"
  with False have "0 < x" by simp
  from fl_range[OF this] pow2_pos[of "expo x"] show ?thesis by linarith
qed

lemma fl_mono_pos:
  assumes "0 < x" and "x \<le> y"
  shows "fl x \<le> fl y"
proof -
  from assms have ypos: "0 < y" by simp
  from expo_bounds[OF assms(1)] have xlo: "pow2 (expo x) \<le> x" by simp
  from expo_bounds[OF ypos] have yhi: "y < pow2 (expo y + 1)" by simp
  have le: "expo x \<le> expo y"
  proof (rule ccontr)
    assume "\<not> expo x \<le> expo y"
    then have "pow2 (expo y + 1) \<le> pow2 (expo x)" by (intro pow2_mono) simp
    with xlo yhi assms(2) show False by linarith
  qed
  show ?thesis
  proof (cases "expo x = expo y")
    case True
    have "x / pow2 (expo y - 52) \<le> y / pow2 (expo y - 52)"
      using assms(2) pow2_pos[of "expo y - 52"] by (simp add: divide_right_mono)
    then have "rne (x / pow2 (expo y - 52)) \<le> rne (y / pow2 (expo y - 52))"
      by (rule rne_mono)
    then have "of_int (rne (x / pow2 (expo y - 52))) * pow2 (expo y - 52)
                 \<le> (of_int (rne (y / pow2 (expo y - 52))) :: real) * pow2 (expo y - 52)"
      using pow2_pos[of "expo y - 52"] by simp
    then show ?thesis using assms(1) ypos True by (simp add: fl_def Let_def)
  next
    case False
    with le have "expo x + 1 \<le> expo y" by simp
    then have "pow2 (expo x + 1) \<le> pow2 (expo y)" by (rule pow2_mono)
    with fl_range[OF assms(1)] fl_range[OF ypos] show ?thesis by linarith
  qed
qed

lemma fl_mono: "0 \<le> x \<Longrightarrow> x \<le> y \<Longrightarrow> fl x \<le> fl y"
proof (cases "x = 0")
  case True
  assume "x \<le> y"
  with True have "0 \<le> y" by simp
  then show ?thesis using True by (simp add: fl_zero fl_nonneg)
next
  case False
  assume "0 \<le> x" and xy: "x \<le> y"
  with False have "0 < x" by simp
  then show ?thesis using xy by (rule fl_mono_pos)
qed

lemma fl_of_int:
  assumes "0 \<le> k" and "k < 2 ^ 53"
  shows "fl (of_int k) = of_int k"
proof (cases "k = 0")
  case True
  then show ?thesis by (simp add: fl_zero)
next
  case False
  with assms(1) have kpos: "0 < (of_int k :: real)" by simp
  define e where "e = expo (of_int k)"
  from expo_bounds[OF kpos] have lo: "pow2 e \<le> of_int k" by (simp add: e_def)
  have "(of_int k :: real) < 2 ^ 53" using assms(2)
    by (metis of_int_less_iff of_int_numeral of_int_power)
  with lo have "pow2 e < pow2 53" by (simp add: pow2_def)
  then have e52: "e \<le> 52" using pow2_mono[of 53 e] by (cases "e \<le> 52") auto
  define j where "j = nat (52 - e)"
  have u: "pow2 (e - 52) = 1 / 2 ^ j"
  proof (cases "e = 52")
    case True
    then show ?thesis by (simp add: pow2_def j_def)
  next
    case False
    with e52 have "e - 52 < 0" by simp
    then show ?thesis by (simp add: pow2_def j_def)
  qed
  have "of_int k / pow2 (e - 52) = (of_int (k * 2 ^ j) :: real)" by (simp add: u)
  then have "rne (of_int k / pow2 (e - 52)) = k * 2 ^ j" by (simp only: rne_of_int)
  then have "fl (of_int k) = of_int (k * 2 ^ j) * (1 / 2 ^ j)"
    using kpos by (simp add: fl_def Let_def e_def[symmetric] u)
  then show ?thesis by simp
qed

subsection \<open>The listing fetch\<close>

lemma range3: "[0..<3] = [0, 1, 2]"
  by (simp add: upt_rec)

lemma dropWhile_all_iff: "(\<forall>x\<in>set (dropWhile P s). P x) \<longleftrightarrow> dropWhile P s = []"
proof
  assume h: "\<forall>x\<in>set (dropWhile P s). P x"
  show "dropWhile P s = []"
  proof (rule ccontr)
    assume ne: "dropWhile P s \<noteq> []"
    then have "\<not> P (hd (dropWhile P s))" by (rule hd_dropWhile)
    moreover from ne have "hd (dropWhile P s) \<in> set (dropWhile P s)" by simp
    ultimately show False using h by blast
  qed
next
  assume e: "dropWhile P s = []"
  show "\<forall>x\<in>set (dropWhile P s). P x" unfolding e by simp
qed

lemma strip_empty_iff: "strip s = [] \<longleftrightarrow> (\<forall>c\<in>set s. is_space c)"
  by (simp add: strip_def dropWhile_eq_Nil_conv dropWhile_all_iff)

text \<open>
  C4, as stated, at a remote side that answers every request with status 200 and a page
  that is not JSON: the first attempt returns a success status, yet the fetch does not
  stop there. \<open>response.json()\<close> raises inside the \<open>try\<close>, the attempt counts as failed,
  and the fetch sends all three requests and returns \<open>None\<close>.
\<close>

theorem success_status_without_listing_is_retried:
  "success_status (net portal (trace fresh) ''api/src'' (request_headers None))
   \<and> get_files_from_github portal ''api/src'' None MAX_RETRIES fresh =
       (None, fresh\<lparr>trace :=
          [Get ''api/src'' [(''User-Agent'', ''GitHubScreenshoter'')], Sleep 1,
           Get ''api/src'' [(''User-Agent'', ''GitHubScreenshoter'')], Sleep 1,
           Get ''api/src'' [(''User-Agent'', ''GitHubScreenshoter'')]]\<rparr>)"
  by (simp add: portal_def fresh_def success_status_def get_files_from_github_def
      MAX_RETRIES_def range3 pause_def request_headers_def)

text \<open>
  C4, amended. With the program's retry bound the listing fetch sends at most three
  requests, sleeps one second after a failed attempt only when another attempt follows,
  returns the parsed listing of the first attempt answered with status 200 and a body that
  parses, without sending anything more, and returns \<open>None\<close> when each of the three
  attempts raises, carries another status or carries a body that does not parse; \<open>main\<close>
  then processes no files and ends normally.
\<close>

theorem listing_fetch_three_attempts:
  "get_files_from_github env u token MAX_RETRIES st =
     (let hs = request_headers token; g = Get u hs; t = trace st;
          r1 = net env t u hs;
          r2 = net env (t @ [g, Sleep 1]) u hs;
          r3 = net env (t @ [g, Sleep 1, g, Sleep 1]) u hs
      in if succeeded r1 then (resp_json r1, st\<lparr>trace := t @ [g]\<rparr>)
         else if succeeded r2 then (resp_json r2, st\<lparr>trace := t @ [g, Sleep 1, g]\<rparr>)
         else if succeeded r3 then
           (resp_json r3, st\<lparr>trace := t @ [g, Sleep 1, g, Sleep 1, g]\<rparr>)
         else (None, st\<lparr>trace := t @ [g, Sleep 1, g, Sleep 1, g]\<rparr>))
   \<and> (fst (get_files_from_github env
              (''https://api.github.com/repos/'' @
                 replace repo_url ''https://github.com/'' '''' @ ''/contents'')
              token MAX_RETRIES st) = None \<longrightarrow>
        main env depth repo_url token st =
          Some (Inr (snd (get_files_from_github env
              (''https://api.github.com/repos/'' @
                 replace repo_url ''https://github.com/'' '''' @ ''/contents'')
              token MAX_RETRIES st))))"
proof
  show "get_files_from_github env u token MAX_RETRIES st =
     (let hs = request_headers token; g = Get u hs; t = trace st;
          r1 = net env t u hs;
          r2 = net env (t @ [g, Sleep 1]) u hs;
          r3 = net env (t @ [g, Sleep 1, g, Sleep 1]) u hs
      in if succeeded r1 then (resp_json r1, st\<lparr>trace := t @ [g]\<rparr>)
         else if succeeded r2 then (resp_json r2, st\<lparr>trace := t @ [g, Sleep 1, g]\<rparr>)
         else if succeeded r3 then
           (resp_json r3, st\<lparr>trace := t @ [g, Sleep 1, g, Sleep 1, g]\<rparr>)
         else (None, st\<lparr>trace := t @ [g, Sleep 1, g, Sleep 1, g]\<rparr>))"
    by (simp add: get_files_from_github_def MAX_RETRIES_def range3 pause_def succeeded_def
        Let_def split: reply.splits option.splits)
next
  show "fst (get_files_from_github env
              (''https://api.github.com/repos/'' @
                 replace repo_url ''https://github.com/'' '''' @ ''/contents'')
              token MAX_RETRIES st) = None \<longrightarrow>
        main env depth repo_url token st =
          Some (Inr (snd (get_files_from_github env
              (''https://api.github.com/repos/'' @
                 replace repo_url ''https://github.com/'' '''' @ ''/contents'')
              token MAX_RETRIES st)))"
    by (cases "get_files_from_github env
              (''https://api.github.com/repos/'' @
                 replace repo_url ''https://github.com/'' '''' @ ''/contents'')
              token MAX_RETRIES st") (simp add: main_def Let_def)
qed

theorem listing_fetch_three_attempts_witness:
  "get_files_from_github offline ''api/src'' None MAX_RETRIES fresh =
     (None, fresh\<lparr>trace :=
        [Get ''api/src'' [(''User-Agent'', ''GitHubScreenshoter'')], Sleep 1,
         Get ''api/src'' [(''User-Agent'', ''GitHubScreenshoter'')], Sleep 1,
         Get ''api/src'' [(''User-Agent'', ''GitHubScreenshoter'')]]\<rparr>)
   \<and> main offline 1 ''https://github.com/o/r'' None fresh =
       Some (Inr (fresh\<lparr>trace :=
        [Get ''https://api.github.com/repos/o/r/contents''
           [(''User-Agent'', ''GitHubScreenshoter'')], Sleep 1,
         Get ''https://api.github.com/repos/o/r/contents''
           [(''User-Agent'', ''GitHubScreenshoter'')], Sleep 1,
         Get ''https://api.github.com/repos/o/r/contents''
           [(''User-Agent'', ''GitHubScreenshoter'')]]\<rparr>))
   \<and> get_files_from_github sample_env ''api/src'' None MAX_RETRIES fresh =
       (Some [utils_dir],
        fresh\<lparr>trace := [Get ''api/src'' [(''User-Agent'', ''GitHubScreenshoter'')]]\<rparr>)"
  using listing_fetch_three_attempts[of offline "''api/src''" None fresh "''https://github.com/o/r''" 1]
    listing_fetch_three_attempts[of offline "''https://api.github.com/repos/o/r/contents''" None fresh
       "''https://github.com/o/r''" 1]
    listing_fetch_three_attempts[of sample_env "''api/src''" None fresh "''https://github.com/o/r''" 1]
  by (simp add: offline_def sample_env_def sample_net_def fresh_def request_headers_def
      succeeded_def replace_def Let_def)

subsection \<open>The walk over one listing\<close>

lemma listing_keeps_files:
  "files (snd (get_files_from_github env u token MAX_RETRIES st)) = files st
   \<and> dirs (snd (get_files_from_github env u token MAX_RETRIES st)) = dirs st"
  by (simp add: get_files_from_github_def MAX_RETRIES_def range3 pause_def Let_def
      split: reply.splits option.splits)

text \<open>
  C5. A file entry with an allow-listed extension whose downloaded body is empty or holds
  white space only costs its download request and nothing else: the walk continues in a
  state that differs from the one before only by that request in the log, so no directory
  is created and no image is written for it.
\<close>

theorem whitespace_only_file_leaves_no_output:
  assumes "entry_type f = ''file''"
    and "list_ex (\<lambda>ext. endswith (name f) ext) FILE_EXTENSIONS"
    and "net env (trace st) (download_url f) [(''User-Agent'', ''GitHubScreenshoter'')]
           = Response sc content js"
    and "\<forall>c\<in>set content. is_space c"
  shows "process_files env (Suc depth) (f # fs) token path st =
           process_files env (Suc depth) fs token path
             (st\<lparr>trace := trace st @
                [Get (download_url f) [(''User-Agent'', ''GitHubScreenshoter'')]]\<rparr>)"
proof -
  from assms(4) have "strip content = []" by (simp add: strip_empty_iff)
  with assms(1,2,3) show ?thesis by (simp add: Let_def)
qed

theorem whitespace_only_file_leaves_no_output_witness:
  "entry_type blank_txt = ''file''
   \<and> list_ex (\<lambda>ext. endswith (name blank_txt) ext) FILE_EXTENSIONS
   \<and> net sample_env (trace fresh) (download_url blank_txt)
        [(''User-Agent'', ''GitHubScreenshoter'')] = Response 200 [32, 10, 9] None
   \<and> list_all is_space [32, 10, 9]
   \<and> process_files sample_env (Suc 0) [blank_txt] None '''' fresh =
       Some (Inr (fresh\<lparr>trace :=
         [Get ''raw/blank.txt'' [(''User-Agent'', ''GitHubScreenshoter'')]]\<rparr>))"
  using whitespace_only_file_leaves_no_output[of blank_txt sample_env fresh 200
      "[32, 10, 9]" None 0 "[]" None "''''"]
  by (simp add: blank_txt_def sample_env_def sample_net_def fresh_def FILE_EXTENSIONS_def
      endswith_def is_space_def)

text \<open>
  C6. File entries whose name ends with none of the allow-listed extensions can be struck
  from a listing without changing the walk: no request is sent and no image is made for
  them.
\<close>

theorem unlisted_extension_never_fetched:
  "process_files env depth
     (filter (\<lambda>f. \<not> (entry_type f = ''file''
                    \<and> \<not> list_ex (\<lambda>ext. endswith (name f) ext) FILE_EXTENSIONS)) fs)
     token path st
   = process_files env depth fs token path st"
proof (cases depth)
  case 0
  then show ?thesis by simp
next
  case (Suc d)
  show ?thesis unfolding Suc
  proof (induction fs arbitrary: st)
    case Nil
    then show ?case by simp
  next
    case (Cons f fs)
    then show ?case
      by (simp add: Let_def
          split: prod.splits option.splits list.splits sum.splits reply.splits)
  qed
qed

theorem unlisted_extension_never_fetched_witness:
  "\<not> list_ex (\<lambda>ext. endswith (name logo_png) ext) FILE_EXTENSIONS
   \<and> process_files sample_env (Suc 0) [logo_png] (Some ''s3cret'') '''' fresh = Some (Inr fresh)"
  using unlisted_extension_never_fetched[of sample_env "Suc 0" "[logo_png]" "Some ''s3cret''"
      "''''" fresh]
  by (simp add: logo_png_def FILE_EXTENSIONS_def endswith_def)

text \<open>
  C10. At a directory entry the walk descends exactly when the listing fetch returns a
  non-empty list. A fetch that fails and a fetch that returns the empty array are treated
  alike: the walk goes on with the next entry, and the fetch has changed neither the
  directories nor the image files.
\<close>

theorem directory_entered_only_for_nonempty_listing:
  assumes "entry_type d = ''dir''"
  shows "(fst (get_files_from_github env (url d) token MAX_RETRIES st) = None
            \<or> fst (get_files_from_github env (url d) token MAX_RETRIES st) = Some [] \<longrightarrow>
          process_files env (Suc depth) (d # fs) token path st =
            process_files env (Suc depth) fs token path
              (snd (get_files_from_github env (url d) token MAX_RETRIES st))
          \<and> files (snd (get_files_from_github env (url d) token MAX_RETRIES st)) = files st
          \<and> dirs (snd (get_files_from_github env (url d) token MAX_RETRIES st)) = dirs st)
       \<and> (\<forall>sub subs. fst (get_files_from_github env (url d) token MAX_RETRIES st)
              = Some (sub # subs) \<longrightarrow>
          process_files env (Suc depth) (d # fs) token path st =
            (case process_files env depth (sub # subs) token (path_join path (name d))
                    (snd (get_files_from_github env (url d) token MAX_RETRIES st)) of
               None \<Rightarrow> None
             | Some (Inl e) \<Rightarrow> Some (Inl e)
             | Some (Inr st2) \<Rightarrow> process_files env (Suc depth) fs token path st2))"
  using assms listing_keeps_files[of env "url d" token st]
  by (cases "get_files_from_github env (url d) token MAX_RETRIES st") auto

theorem directory_entered_only_for_nonempty_listing_witness:
  "entry_type empty_dir = ''dir''
   \<and> fst (get_files_from_github sample_env (url empty_dir) None MAX_RETRIES fresh) = Some []
   \<and> process_files sample_env (Suc (Suc 0)) [empty_dir] None '''' fresh =
       Some (Inr (fresh\<lparr>trace :=
         [Get ''api/empty'' [(''User-Agent'', ''GitHubScreenshoter'')]]\<rparr>))
   \<and> entry_type assets_dir = ''dir''
   \<and> fst (get_files_from_github sample_env (url assets_dir) None MAX_RETRIES fresh)
       = Some [logo_png]
   \<and> process_files sample_env (Suc (Suc 0)) [assets_dir] None '''' fresh =
       Some (Inr (fresh\<lparr>trace :=
         [Get ''api/assets'' [(''User-Agent'', ''GitHubScreenshoter'')]]\<rparr>))"
  using directory_entered_only_for_nonempty_listing[of empty_dir sample_env None fresh
      "Suc 0" "[]" "''''"]
    directory_entered_only_for_nonempty_listing[of assets_dir sample_env None fresh
      "Suc 0" "[]" "''''"]
  by (simp add: empty_dir_def assets_dir_def logo_png_def sample_env_def sample_net_def
      fresh_def get_files_from_github_def MAX_RETRIES_def range3 request_headers_def
      FILE_EXTENSIONS_def endswith_def)

subsection \<open>The rasterizer\<close>

lemma measure_loop_snd:
  "snd (measure_loop f lines mw hs) = hs @ map (\<lambda>l. snd (measure_line f l)) lines"
  by (induction lines arbitrary: mw hs) (auto split: prod.splits)

lemma measure_loop_fst_ge: "mw \<le> fst (measure_loop f lines mw hs)"
proof (induction lines arbitrary: mw hs)
  case Nil
  then show ?case by simp
next
  case (Cons l lines)
  obtain w h where m: "measure_line f l = (w, h)" by (cases "measure_line f l")
  have "mw \<le> (if w > mw then w else mw)" by simp
  also have "\<dots> \<le> fst (measure_loop f lines (if w > mw then w else mw) (hs @ [h]))"
    by (rule Cons.IH)
  finally show ?case by (simp add: m)
qed

lemma measure_loop_fst:
  "fst (measure_loop f lines mw hs) = fold max (map (\<lambda>l. fst (measure_line f l)) lines) mw"
  by (induction lines arbitrary: mw hs) (auto split: prod.splits simp: max_def)

lemma img_width_ge: "2 * PADDING \<le> img_width f lines"
  using measure_loop_fst_ge[of 0 f lines "[]"] by (simp add: img_width_def)

lemma fl_5: "fl 5 = 5"
  using fl_of_int[of 5] by simp

lemma splitlines_from_Nil_iff: "splitlines_from cur s = [] \<longleftrightarrow> cur = [] \<and> s = []"
  by (induction cur s rule: splitlines_from.induct) auto

lemma splitlines_Nil_iff: "splitlines s = [] \<longleftrightarrow> s = []"
  by (simp add: splitlines_def splitlines_from_Nil_iff)

lemma sum_list_lower: "\<forall>h\<in>set hs. m \<le> h \<Longrightarrow> m * int (length hs) \<le> sum_list hs"
  by (induction hs) (auto simp: algebra_simps)

lemma total_height_lower:
  assumes m0: "0 \<le> m" and m15: "m \<le> 15"
    and hs: "\<forall>h\<in>set hs. m \<le> h"
    and n1: "hs \<noteq> []" and nb: "int (length hs) < 2 ^ 48"
  shows "(m + 5) * int (length hs)
           \<le> py_int (py_mul (py_add (avg_line_height hs) (PyInt LINE_SPACING))
                (PyInt (int (length hs))))"
proof -
  define n where "n = int (length hs)"
  define a where "a = fl (of_int (sum_list hs) / of_int n)"
  define b where "b = fl (a + 5)"
  define c where "c = fl (b * of_int n)"
  have npos: "0 < n" using n1 by (simp add: n_def)
  have sge: "m * n \<le> sum_list hs" unfolding n_def using hs by (rule sum_list_lower)
  have "(of_int m :: real) * of_int n \<le> of_int (sum_list hs)"
    using sge by (metis of_int_le_iff of_int_mult)
  then have q: "(of_int m :: real) \<le> of_int (sum_list hs) / of_int n"
    using npos by (simp add: pos_le_divide_eq)
  have mreal: "0 \<le> (of_int m :: real)" using m0 by simp
  have "fl (of_int m) \<le> a" unfolding a_def using mreal q by (rule fl_mono)
  moreover have "fl (of_int m) = of_int m" using m0 m15 by (intro fl_of_int) auto
  ultimately have am: "of_int m \<le> a" by simp
  have "fl (of_int (m + 5)) \<le> b" unfolding b_def
    using mreal am by (intro fl_mono) auto
  moreover have "fl (of_int (m + 5)) = of_int (m + 5)" using m0 m15 by (intro fl_of_int) auto
  ultimately have bm: "of_int (m + 5) \<le> b" by simp
  have prod0: "0 \<le> (of_int ((m + 5) * n) :: real)" using m0 npos by simp
  have "(of_int (m + 5) :: real) * of_int n \<le> b * of_int n"
    using bm npos by (simp add: mult_right_mono)
  then have "(of_int ((m + 5) * n) :: real) \<le> b * of_int n" by simp
  with prod0 have "fl (of_int ((m + 5) * n)) \<le> c" unfolding c_def by (rule fl_mono)
  moreover have "fl (of_int ((m + 5) * n)) = of_int ((m + 5) * n)"
  proof (rule fl_of_int)
    show "0 \<le> (m + 5) * n" using m0 npos by simp
    have "(m + 5) * n \<le> 20 * n" using m15 npos by (simp add: mult_right_mono)
    also have "\<dots> < 20 * 2 ^ 48" using nb by (simp add: n_def)
    also have "\<dots> \<le> (2::int) ^ 53" by simp
    finally show "(m + 5) * n < 2 ^ 53" .
  qed
  ultimately have cm: "of_int ((m + 5) * n) \<le> c" by simp
  then have c0: "0 \<le> c" using prod0 by linarith
  have nfl: "fl (of_int n) = of_int n"
  proof (rule fl_of_int)
    show "0 \<le> n" using npos by simp
    have "n < 2 ^ 48" using nb by (simp add: n_def)
    also have "\<dots> \<le> (2::int) ^ 53" by simp
    finally show "n < 2 ^ 53" .
  qed
  from nfl have nfl': "fl (real (length hs)) = real (length hs)" by (simp add: n_def)
  have "py_int (py_mul (py_add (avg_line_height hs) (PyInt LINE_SPACING)) (PyInt n))
          = \<lfloor>c\<rfloor>"
    using n1 c0
    by (simp add: avg_line_height_def py_truediv_def LINE_SPACING_def fl_5 nfl'
        a_def b_def c_def n_def)
  moreover have "(m + 5) * n \<le> \<lfloor>c\<rfloor>" using cm by (simp add: le_floor_iff)
  ultimately show ?thesis by (simp add: n_def)
qed





lemma fl_numeral: "numeral k < (2::int) ^ 53 \<Longrightarrow> fl (numeral k) = numeral k"
  using fl_of_int[of "numeral k"] by simp

lemma fl_one: "fl 1 = 1"
  using fl_of_int[of 1] by simp

text \<open>
  C1, as the specification states it, fails: the height of the canvas follows the measured
  line heights, not the nominal font size. The one line \<open>hi\<close> measures 7 rows in the sample
  face and gives a canvas 52 rows high, below the 60 rows of two paddings and one nominal
  line advance.
\<close>

theorem canvas_height_below_nominal_advance:
  "splitlines [104, 105] \<noteq> []
   \<and> img_height sample_face (splitlines [104, 105])
       < 2 * PADDING + int (length (splitlines [104, 105])) * (FONT_SIZE + LINE_SPACING)"
  by (simp add: splitlines_def is_linebreak_def img_height_def total_height_def
      avg_line_height_def py_truediv_def measure_line_def sample_face_def
      PADDING_def FONT_SIZE_def LINE_SPACING_def fl_numeral fl_one)

text \<open>
  C1, amended. For every text the canvas is at least two paddings wide. With fewer than
  \<open>2 ^ 48\<close> lines, it is at least two paddings plus the line count times the line spacing
  high when no line measures a negative height, and at least two paddings plus the line
  count times the nominal line advance when every line measures at least the nominal font
  size (as the line height of the older \<open>getsize\<close> does).
\<close>

theorem canvas_lower_bounds:
  "2 * PADDING \<le> img_width f (splitlines content)
   \<and> ((\<forall>l\<in>set (splitlines content). 0 \<le> snd (measure_line f l))
        \<and> int (length (splitlines content)) < 2 ^ 48 \<longrightarrow>
      2 * PADDING + int (length (splitlines content)) * LINE_SPACING
        \<le> img_height f (splitlines content))
   \<and> ((\<forall>l\<in>set (splitlines content). FONT_SIZE \<le> snd (measure_line f l))
        \<and> int (length (splitlines content)) < 2 ^ 48 \<longrightarrow>
      2 * PADDING + int (length (splitlines content)) * (FONT_SIZE + LINE_SPACING)
        \<le> img_height f (splitlines content))"
proof -
  define lines where "lines = splitlines content"
  define hs where "hs = map (\<lambda>l. snd (measure_line f l)) lines"
  have len: "length hs = length lines" by (simp add: hs_def)
  have th: "total_height f lines =
      py_int (py_mul (py_add (avg_line_height hs) (PyInt LINE_SPACING))
        (PyInt (int (length hs))))"
    by (simp add: total_height_def measure_loop_snd hs_def)
  have empty: "lines = [] \<Longrightarrow> total_height f lines = 0"
    by (simp add: total_height_def avg_line_height_def)
  have low: "(m + 5) * int (length lines) \<le> total_height f lines"
    if m: "0 \<le> m" "m \<le> 15" and h: "\<forall>l\<in>set lines. m \<le> snd (measure_line f l)"
      and n: "int (length lines) < 2 ^ 48" for m
  proof (cases "lines = []")
    case True
    from empty[OF True] have "total_height f lines = 0" .
    with True show ?thesis by simp
  next
    case False
    then have "hs \<noteq> []" by (simp add: hs_def)
    moreover have "\<forall>h\<in>set hs. m \<le> h" using h by (simp add: hs_def)
    moreover have "int (length hs) < 2 ^ 48" using n by (simp add: len)
    ultimately have "(m + 5) * int (length hs)
           \<le> py_int (py_mul (py_add (avg_line_height hs) (PyInt LINE_SPACING))
                (PyInt (int (length hs))))"
      using m by (intro total_height_lower) auto
    then show ?thesis by (simp add: th len)
  qed
  have A: "2 * PADDING \<le> img_width f lines" by (rule img_width_ge)
  have B: "2 * PADDING + int (length lines) * LINE_SPACING \<le> img_height f lines"
    if "\<forall>l\<in>set lines. 0 \<le> snd (measure_line f l)" "int (length lines) < 2 ^ 48"
    using low[of 0] that by (simp add: img_height_def LINE_SPACING_def mult.commute)
  have C: "2 * PADDING + int (length lines) * (FONT_SIZE + LINE_SPACING) \<le> img_height f lines"
    if "\<forall>l\<in>set lines. FONT_SIZE \<le> snd (measure_line f l)" "int (length lines) < 2 ^ 48"
    using low[of 15] that
    by (simp add: img_height_def LINE_SPACING_def FONT_SIZE_def mult.commute)
  from A B C show ?thesis unfolding lines_def by blast
qed

theorem canvas_lower_bounds_witness:
  "splitlines [104, 105] = [[104, 105]]
   \<and> 0 \<le> snd (measure_line sample_face [104, 105])
   \<and> int (length (splitlines [104, 105])) < 2 ^ 48
   \<and> 2 * PADDING \<le> img_width sample_face (splitlines [104, 105])
   \<and> 2 * PADDING + int (length (splitlines [104, 105])) * LINE_SPACING
        \<le> img_height sample_face (splitlines [104, 105])
   \<and> FONT_SIZE \<le> snd (measure_line legacy_face [104, 105])
   \<and> 2 * PADDING + int (length (splitlines [104, 105])) * (FONT_SIZE + LINE_SPACING)
        \<le> img_height legacy_face (splitlines [104, 105])"
  using canvas_lower_bounds[of sample_face "[104, 105]"]
    canvas_lower_bounds[of legacy_face "[104, 105]"]
  by (simp add: splitlines_def is_linebreak_def measure_line_def sample_face_def
      legacy_face_def FONT_SIZE_def)

lemma fl_16_3: "fl (16 / 3) = 6004799503160661 / 2 ^ 50"
  by (subst fl_eval[of 2]) (simp_all add: pow2_def rne_def Let_def)

lemma fl_31_3: "fl (6004799503160661 / 2 ^ 50 + 5) = 2908574759343445 / 2 ^ 48"
  by (subst fl_eval[of 3]) (simp_all add: pow2_def rne_def Let_def)

lemma fl_31: "fl (2908574759343445 / 2 ^ 48 * 3) = 8725724278030335 / 2 ^ 48"
  by (subst fl_eval[of 4]) (simp_all add: pow2_def rne_def Let_def)

text \<open>
  C2. The width is the largest measured line width (or zero) plus two paddings. The height
  is computed in floating point and truncated by \<open>int\<close>: three lines measuring 7, 7 and 2
  rows average to the float nearest 16/3, and the product with the line count rounds to
  a float just below 31, so the canvas is 70 rows high where the stated formula gives 71.
\<close>

theorem canvas_height_one_pixel_short:
  "splitlines [114, 117, 110, 10, 110, 111, 119, 10, 46, 46, 46]
     = [[114, 117, 110], [110, 111, 119], [46, 46, 46]]
   \<and> img_width sample_face [[114, 117, 110], [110, 111, 119], [46, 46, 46]] = 27 + 2 * PADDING
   \<and> img_height sample_face [[114, 117, 110], [110, 111, 119], [46, 46, 46]] = 70
   \<and> stated_height sample_face [[114, 117, 110], [110, 111, 119], [46, 46, 46]] = 71"
proof -
  have t: "fl (fl (fl (16 / 3) + 5) * 3) = 8725724278030335 / 2 ^ 48"
    by (simp only: fl_16_3 fl_31_3 fl_31)
  have f3: "fl 3 = 3" and f5: "fl 5 = 5"
    by (simp_all add: fl_numeral)
  have h: "img_height sample_face [[114, 117, 110], [110, 111, 119], [46, 46, 46]] = 70"
    by (simp add: img_height_def total_height_def avg_line_height_def py_truediv_def
        measure_line_def sample_face_def PADDING_def LINE_SPACING_def f3 f5 t)
  have w: "img_width sample_face [[114, 117, 110], [110, 111, 119], [46, 46, 46]]
             = 27 + 2 * PADDING"
    by (simp add: img_width_def measure_line_def sample_face_def)
  have s: "stated_height sample_face [[114, 117, 110], [110, 111, 119], [46, 46, 46]] = 71"
    by (simp add: stated_height_def measure_line_def sample_face_def PADDING_def
        LINE_SPACING_def)
  have l: "splitlines [114, 117, 110, 10, 110, 111, 119, 10, 46, 46, 46]
     = [[114, 117, 110], [110, 111, 119], [46, 46, 46]]"
    by (simp add: splitlines_def is_linebreak_def)
  from l w h s show ?thesis by simp
qed




subsection \<open>The three kinds of entry\<close>

text \<open>
  What one step of the walk does: for a file entry with an allow-listed extension, for a
  directory entry, and for any other entry.
\<close>

lemma process_files_listed:
  assumes "entry_type f = ''file''"
    and "list_ex (\<lambda>ext. endswith (name f) ext) FILE_EXTENSIONS"
  shows "process_files env (Suc d) (f # fs) token path st =
    (case net env (trace st) (download_url f) [(''User-Agent'', ''GitHubScreenshoter'')] of
       RequestException \<Rightarrow>
         Some (Inl (RequestError, st\<lparr>trace := trace st @
           [Get (download_url f) [(''User-Agent'', ''GitHubScreenshoter'')]]\<rparr>))
     | Response sc content js \<Rightarrow>
         if sc = 200 \<and> strip content \<noteq> [] then
           (case (if \<not> path_exists (st\<lparr>trace := trace st @
                          [Get (download_url f) [(''User-Agent'', ''GitHubScreenshoter'')]]\<rparr>)
                          (path_join OUTPUT_DIR path)
                  then makedirs env (path_join OUTPUT_DIR path) (st\<lparr>trace := trace st @
                          [Get (download_url f) [(''User-Agent'', ''GitHubScreenshoter'')]]\<rparr>)
                  else Inr (st\<lparr>trace := trace st @
                          [Get (download_url f) [(''User-Agent'', ''GitHubScreenshoter'')]]\<rparr>)) of
              Inl e \<Rightarrow> Some (Inl e)
            | Inr st2 \<Rightarrow>
                (case create_image_from_text env content
                        (path_join (path_join OUTPUT_DIR path) (name f @ ''.png'')) st2 of
                   Inl e \<Rightarrow> Some (Inl e)
                 | Inr s \<Rightarrow> process_files env (Suc d) fs token path s))
         else process_files env (Suc d) fs token path (st\<lparr>trace := trace st @
                [Get (download_url f) [(''User-Agent'', ''GitHubScreenshoter'')]]\<rparr>))"
  using assms by (simp add: Let_def split: reply.splits sum.splits)

lemma process_files_folder:
  assumes "entry_type f = ''dir''"
  shows "process_files env (Suc d) (f # fs) token path st =
    (case get_files_from_github env (url f) token MAX_RETRIES st of
       (Some (sub # subs), st1) \<Rightarrow>
         (case process_files env d (sub # subs) token (path_join path (name f)) st1 of
            None \<Rightarrow> None
          | Some (Inl e) \<Rightarrow> Some (Inl e)
          | Some (Inr st2) \<Rightarrow> process_files env (Suc d) fs token path st2)
     | (_, st1) \<Rightarrow> process_files env (Suc d) fs token path st1)"
  using assms by simp

lemma process_files_other:
  assumes "\<not> (entry_type f = ''file''
              \<and> list_ex (\<lambda>ext. endswith (name f) ext) FILE_EXTENSIONS)"
    and "entry_type f \<noteq> ''dir''"
  shows "process_files env (Suc d) (f # fs) token path st =
           process_files env (Suc d) fs token path st"
  using assms by auto

subsection \<open>What holds along a whole walk\<close>

text \<open>
  A property of the state that every request, pause, directory creation and image write
  preserves holds in the state a walk ends in, whether it returns or raises: a call that
  raises leaves the state as it found it.
\<close>

lemma makedirs_invariant:
  assumes "\<And>s. I s \<Longrightarrow>
        I (s\<lparr>trace := trace s @ [Makedirs p],
              dirs := dirs s \<union> set (dir_chain (rstrip_sep p))\<rparr>)"
    and "I st"
  shows "I (final_state (makedirs env p st))"
  using assms by (simp add: makedirs_def split: option.splits)

lemma save_invariant:
  assumes "\<And>s. I s \<Longrightarrow> I (s\<lparr>trace := trace s @ [Save p], files := (files s)(p \<mapsto> im)\<rparr>)"
    and "I st"
  shows "I (final_state (save env im p st))"
  using assms by (simp add: save_def split: option.splits)

lemma create_image_invariant:
  assumes sv: "\<And>s im. I s \<Longrightarrow>
        I (s\<lparr>trace := trace s @ [Save p], files := (files s)(p \<mapsto> im)\<rparr>)"
    and st: "I st"
  shows "I (final_state (create_image_from_text env c p st))"
proof -
  have "I (final_state (save env (painted (load_font env) (splitlines c)) p st))"
    using sv st by (rule save_invariant[where I = I])
  with st show ?thesis
    by (simp add: create_image_from_text_def Let_def split: option.splits)
qed


lemma fetch_attempts_invariant:
  assumes get: "\<And>s. I s \<Longrightarrow> I (s\<lparr>trace := trace s @ [Get u hs]\<rparr>)"
    and sleep: "\<And>s. I s \<Longrightarrow> I (s\<lparr>trace := trace s @ [Sleep 1]\<rparr>)"
  shows "I st \<Longrightarrow> I (snd (fetch_attempts env u hs retries as st))"
proof (induction as arbitrary: st)
  case Nil
  then show ?case by simp
next
  case (Cons a as)
  have p: "I (pause retries a (st\<lparr>trace := trace st @ [Get u hs]\<rparr>))"
    using get[OF Cons.prems] sleep[OF get[OF Cons.prems]] by (simp add: pause_def)
  show ?case
  proof (cases "net env (trace st) u hs")
    case RequestException
    then show ?thesis using Cons.IH[OF p] by simp
  next
    case (Response sc body js)
    then show ?thesis using Cons.IH[OF p] get[OF Cons.prems]
      by (simp split: option.splits)
  qed
qed

lemma process_files_invariant:
  assumes get: "\<And>s u hs. I s \<Longrightarrow>
        hs = [(''User-Agent'', ''GitHubScreenshoter'')] \<or> hs = request_headers token \<Longrightarrow>
        I (s\<lparr>trace := trace s @ [Get u hs]\<rparr>)"
    and sleep: "\<And>s. I s \<Longrightarrow> I (s\<lparr>trace := trace s @ [Sleep 1]\<rparr>)"
    and mk: "\<And>s p. I s \<Longrightarrow>
        I (s\<lparr>trace := trace s @ [Makedirs p],
              dirs := dirs s \<union> set (dir_chain (rstrip_sep p))\<rparr>)"
    and sv: "\<And>s im p. I s \<Longrightarrow>
        I (s\<lparr>trace := trace s @ [Save p], files := (files s)(p \<mapsto> im)\<rparr>)"
  shows "I st \<Longrightarrow> process_files env depth fs token path st = Some r \<Longrightarrow> I (final_state r)"
proof (induction depth arbitrary: fs path st r)
  case 0
  then show ?case by simp
next
  case (Suc d)
  from Suc.prems show ?case
  proof (induction fs arbitrary: st r)
    case Nil
    from Nil.prems(2) have "Inr st = r" by simp
    then have "final_state r = st" by (cases r) auto
    with Nil.prems(1) show ?case by simp
  next
    case (Cons f fs)
    let ?hs = "[(''User-Agent'', ''GitHubScreenshoter'')]"
    let ?st1 = "st\<lparr>trace := trace st @ [Get (download_url f) ?hs]\<rparr>"
    define listed where "listed \<longleftrightarrow> entry_type f = ''file''
                  \<and> list_ex (\<lambda>ext. endswith (name f) ext) FILE_EXTENSIONS"
    define folder where "folder \<longleftrightarrow> entry_type f = ''dir''"
    consider (listed) listed | (folder) folder | (other) "\<not> listed \<and> \<not> folder"
      by blast
    then show ?case
    proof cases
      case listed
      then have isfile: "entry_type f = ''file''"
          "list_ex (\<lambda>ext. endswith (name f) ext) FILE_EXTENSIONS"
        by (simp_all only: listed_def)
      let ?dir = "path_join OUTPUT_DIR path"
      let ?out = "path_join ?dir (name f @ ''.png'')"
      define prep where "prep =
        (if \<not> path_exists ?st1 ?dir then makedirs env ?dir ?st1 else Inr ?st1)"
      from isfile have eq: "process_files env (Suc d) (f # fs) token path st = Some r \<longleftrightarrow>
        (case net env (trace st) (download_url f) ?hs of
           RequestException \<Rightarrow> Some (Inl (RequestError, ?st1))
         | Response sc content js \<Rightarrow>
             if sc = 200 \<and> strip content \<noteq> [] then
               (case prep of
                  Inl e \<Rightarrow> Some (Inl e)
                | Inr st2 \<Rightarrow>
                    (case create_image_from_text env content ?out st2 of
                       Inl e \<Rightarrow> Some (Inl e)
                     | Inr s \<Rightarrow> process_files env (Suc d) fs token path s))
             else process_files env (Suc d) fs token path ?st1) = Some r"
        unfolding prep_def by (simp only: process_files_listed)
      note run = Cons.prems(2)[unfolded eq]
      have i1: "I ?st1" using Cons.prems(1) by (rule get) simp
      have ip: "I (final_state prep)"
      proof (cases "path_exists ?st1 ?dir")
        case True
        with i1 show ?thesis by (simp add: prep_def)
      next
        case False
        have "I (final_state (makedirs env ?dir ?st1))"
          using mk i1 by (rule makedirs_invariant[where I = I])
        with False show ?thesis by (simp add: prep_def)
      qed
      show ?thesis
      proof (cases "net env (trace st) (download_url f) ?hs")
        case RequestException
        with run have "r = Inl (RequestError, ?st1)" by simp
        with i1 show ?thesis by simp
      next
        case (Response sc content js)
        show ?thesis
        proof (cases "sc = 200 \<and> strip content \<noteq> []")
          case False
          with Response run
          have "process_files env (Suc d) fs token path ?st1 = Some r"
            by (simp split: if_splits)
          with i1 show ?thesis by (rule Cons.IH)
        next
          case True
          from Response True run
          have run2: "(case prep of
                  Inl e \<Rightarrow> Some (Inl e)
                | Inr st2 \<Rightarrow>
                    (case create_image_from_text env content ?out st2 of
                       Inl e \<Rightarrow> Some (Inl e)
                     | Inr s \<Rightarrow> process_files env (Suc d) fs token path s)) = Some r"
            by simp
          show ?thesis
          proof (cases prep)
            case (Inl e)
            with run2 have "r = prep" by simp
            with ip show ?thesis by simp
          next
            case (Inr st2)
            with ip have i2: "I st2" by simp
            define res where "res = create_image_from_text env content ?out st2"
            have ir: "I (final_state res)"
              unfolding res_def using sv i2 by (rule create_image_invariant[where I = I])
            from run2 Inr
            have run3: "(case res of
                  Inl e \<Rightarrow> Some (Inl e)
                | Inr s \<Rightarrow> process_files env (Suc d) fs token path s) = Some r"
              by (simp add: res_def)
            show ?thesis
            proof (cases res)
              case (Inl e)
              with run3 have "r = res" by simp
              with ir show ?thesis by simp
            next
              case (Inr s)
              with run3 have "process_files env (Suc d) fs token path s = Some r" by simp
              moreover from ir Inr have "I s" by simp
              ultimately show ?thesis by (rule Cons.IH[rotated])
            qed
          qed
        qed
      qed
    next
      case folder
      then have isdir: "entry_type f = ''dir''" by (simp only: folder_def)
      note run = Cons.prems(2)[unfolded process_files_folder[OF isdir]]
      obtain x st1 where g: "get_files_from_github env (url f) token MAX_RETRIES st = (x, st1)"
        by (cases "get_files_from_github env (url f) token MAX_RETRIES st")
      have "I (snd (get_files_from_github env (url f) token MAX_RETRIES st))"
        unfolding get_files_from_github_def
      proof (rule fetch_attempts_invariant)
        fix s assume "I s"
        then show "I (s\<lparr>trace := trace s @ [Get (url f) (request_headers token)]\<rparr>)"
          by (rule get) simp
      next
        fix s assume "I s"
        then show "I (s\<lparr>trace := trace s @ [Sleep 1]\<rparr>)" by (rule sleep)
      next
        show "I st" by (rule Cons.prems(1))
      qed
      then have i1: "I st1" by (simp add: g)
      show ?thesis
      proof (cases "\<exists>sub subs. x = Some (sub # subs)")
        case False
        with g run
        have "process_files env (Suc d) fs token path st1 = Some r"
          by (auto split: option.splits list.splits)
        with i1 show ?thesis by (rule Cons.IH)
      next
        case True
        then obtain sub subs where x: "x = Some (sub # subs)" by blast
        from g x run
        have run2: "(case process_files env d (sub # subs) token (path_join path (name f)) st1 of
                None \<Rightarrow> None
              | Some (Inl e) \<Rightarrow> Some (Inl e)
              | Some (Inr st2) \<Rightarrow> process_files env (Suc d) fs token path st2) = Some r"
          by simp
        show ?thesis
        proof (cases "process_files env d (sub # subs) token (path_join path (name f)) st1")
          case None
          with run2 show ?thesis by simp
        next
          case (Some q)
          from Suc.IH[OF i1 Some] have iq: "I (final_state q)" .
          show ?thesis
          proof (cases q)
            case (Inl e)
            with Some run2 have "r = q" by simp
            with iq show ?thesis by simp
          next
            case (Inr st2)
            with Some run2
            have "process_files env (Suc d) fs token path st2 = Some r" by simp
            moreover from iq Inr have "I st2" by simp
            ultimately show ?thesis by (rule Cons.IH[rotated])
          qed
        qed
      qed
    next
      case other
      then have "process_files env (Suc d) (f # fs) token path st
          = process_files env (Suc d) fs token path st"
        by (intro process_files_other) (simp_all only: listed_def folder_def, simp_all)
      with Cons.prems(2) have "process_files env (Suc d) fs token path st = Some r"
        by (simp only:)
      with Cons.prems(1) show ?thesis by (rule Cons.IH)
    qed
  qed
qed

subsection \<open>The headers of the requests\<close>

lemma sent_append: "sent (a @ b) = sent a @ sent b"
proof (induction a)
  case Nil
  then show ?case by simp
next
  case (Cons e a)
  then show ?case by (cases e) simp_all
qed

lemma fetch_attempts_sent:
  "\<exists>k\<le>length as. sent (trace (snd (fetch_attempts env u hs retries as st)))
      = sent (trace st) @ replicate k hs"
proof (induction as arbitrary: st)
  case Nil
  show ?case by simp
next
  case (Cons a as)
  let ?st1 = "pause retries a (st\<lparr>trace := trace st @ [Get u hs]\<rparr>)"
  have s1: "sent (trace ?st1) = sent (trace st) @ [hs]"
    by (simp add: pause_def sent_append)
  from Cons.IH[of ?st1] obtain k where k: "k \<le> length as"
    and e: "sent (trace (snd (fetch_attempts env u hs retries as ?st1)))
              = sent (trace ?st1) @ replicate k hs" by blast
  have more: "sent (trace (snd (fetch_attempts env u hs retries as ?st1)))
      = sent (trace st) @ replicate (Suc k) hs"
    by (simp only: e s1 append_assoc replicate_Suc append_Cons append_Nil)
  show ?case
  proof (cases "succeeded (net env (trace st) u hs)")
    case True
    then have "sent (trace (snd (fetch_attempts env u hs retries (a # as) st)))
        = sent (trace st) @ replicate 1 hs"
      by (auto simp: succeeded_def sent_append split: reply.splits option.splits)
    then show ?thesis by (intro exI[of _ 1]) simp
  next
    case False
    then have "fetch_attempts env u hs retries (a # as) st
        = fetch_attempts env u hs retries as ?st1"
      by (auto simp: succeeded_def split: reply.splits option.splits)
    with more k show ?thesis by (intro exI[of _ "Suc k"]) simp
  qed
qed

lemma request_headers_ok: "credential_headers token (request_headers token)"
  by (cases token) (simp_all add: credential_headers_def request_headers_def)

lemma agent_only_ok: "credential_headers token [(''User-Agent'', ''GitHubScreenshoter'')]"
  by (simp add: credential_headers_def)

lemma walk_headers:
  assumes "list_all (credential_headers token) (sent (trace st))"
    and "process_files env depth fs token path st = Some r"
  shows "list_all (credential_headers token) (sent (trace (final_state r)))"
proof (rule process_files_invariant[where I = "\<lambda>s. list_all (credential_headers token) (sent (trace s))"
      and token = token, OF _ _ _ _ assms])
  fix s :: state and u hs
  assume a: "list_all (credential_headers token) (sent (trace s))"
    and h: "hs = [(''User-Agent'', ''GitHubScreenshoter'')] \<or> hs = request_headers token"
  from h have "credential_headers token hs"
    using request_headers_ok agent_only_ok by auto
  with a show "list_all (credential_headers token)
      (sent (trace (s\<lparr>trace := trace s @ [Get u hs]\<rparr>)))"
    by (simp add: sent_append)
next
  fix s :: state
  assume "list_all (credential_headers token) (sent (trace s))"
  then show "list_all (credential_headers token)
      (sent (trace (s\<lparr>trace := trace s @ [Sleep 1]\<rparr>)))"
    by (simp add: sent_append)
next
  fix s :: state and p
  assume "list_all (credential_headers token) (sent (trace s))"
  then show "list_all (credential_headers token)
      (sent (trace (s\<lparr>trace := trace s @ [Makedirs p],
                      dirs := dirs s \<union> set (dir_chain (rstrip_sep p))\<rparr>)))"
    by (simp add: sent_append)
next
  fix s :: state and im p
  assume "list_all (credential_headers token) (sent (trace s))"
  then show "list_all (credential_headers token)
      (sent (trace (s\<lparr>trace := trace s @ [Save p], files := (files s)(p \<mapsto> im)\<rparr>)))"
    by (simp add: sent_append)
qed

lemma single_download_sent:
  assumes "entry_type f = ''file''"
    and "list_ex (\<lambda>ext. endswith (name f) ext) FILE_EXTENSIONS"
  shows "\<exists>r. process_files env (Suc d) [f] token path st = Some r
           \<and> sent (trace (final_state r))
               = sent (trace st) @ [[(''User-Agent'', ''GitHubScreenshoter'')]]"
proof -
  let ?hs = "[(''User-Agent'', ''GitHubScreenshoter'')]"
  let ?st1 = "st\<lparr>trace := trace st @ [Get (download_url f) ?hs]\<rparr>"
  let ?dir = "path_join OUTPUT_DIR path"
  let ?out = "path_join ?dir (name f @ ''.png'')"
  define J where "J = (\<lambda>s::state. sent (trace s) = sent (trace st) @ [?hs])"
  define prep where "prep =
    (if \<not> path_exists ?st1 ?dir then makedirs env ?dir ?st1 else Inr ?st1)"
  note eq = process_files_listed[OF assms, of env d "[]" token path st, folded prep_def]
  have j1: "J ?st1" by (simp add: J_def sent_append)
  have jm: "J (s\<lparr>trace := trace s @ [Makedirs p],
                 dirs := dirs s \<union> set (dir_chain (rstrip_sep p))\<rparr>)" if "J s" for s p
    using that by (simp add: J_def sent_append)
  have js: "J (s\<lparr>trace := trace s @ [Save p], files := (files s)(p \<mapsto> im)\<rparr>)"
    if "J s" for s im p
    using that by (simp add: J_def sent_append)
  have jp: "J (final_state prep)"
  proof (cases "path_exists ?st1 ?dir")
    case True
    with j1 show ?thesis by (simp add: prep_def)
  next
    case False
    have "J (final_state (makedirs env ?dir ?st1))"
      using jm j1 by (rule makedirs_invariant[where I = J])
    with False show ?thesis by (simp add: prep_def)
  qed
  show ?thesis
  proof (cases "net env (trace st) (download_url f) ?hs")
    case RequestException
    with eq j1 show ?thesis by (simp add: J_def)
  next
    case (Response sc content body)
    show ?thesis
    proof (cases "sc = 200 \<and> strip content \<noteq> []")
      case False
      with eq Response j1 show ?thesis by (auto simp: J_def)
    next
      case True
      show ?thesis
      proof (cases prep)
        case (Inl e)
        with eq Response True
        have "process_files env (Suc d) [f] token path st = Some prep" by simp
        with jp show ?thesis by (simp add: J_def)
      next
        case (Inr st2)
        with jp have j2: "J st2" by simp
        define res where "res = create_image_from_text env content ?out st2"
        have jr: "J (final_state res)"
          unfolding res_def using js j2 by (rule create_image_invariant[where I = J])
        from eq Response True Inr
        have "process_files env (Suc d) [f] token path st = Some res"
          by (cases res) (simp_all add: res_def)
        with jr show ?thesis by (simp add: J_def)
      qed
    qed
  qed
qed


text \<open>
  C3, as the specification states it, fails for the download requests: \<open>process_files\<close>
  builds their headers from the User-Agent alone, so the request for \<open>blank.txt\<close> carries
  no Authorization header although a credential was supplied.
\<close>

theorem download_request_lacks_authorization:
  "\<not> list_all (stated_headers (Some ''s3cret''))
       (sent (trace (final_state (the
          (process_files sample_env (Suc 0) [blank_txt] (Some ''s3cret'') [] fresh)))))"
  by (simp add: blank_txt_def sample_env_def sample_net_def fresh_def FILE_EXTENSIONS_def
      endswith_def strip_def is_space_def stated_headers_def Let_def)

text \<open>
  C3, amended. Every request of a walk carries the fixed User-Agent, and an Authorization
  header only of the form \<open>token <value>\<close> for the non-empty credential supplied. The
  listing fetch sends at most \<open>retries\<close> requests, each with the same headers, among which
  Authorization is present exactly when the credential is a non-empty string. The
  download request of a file entry carries the User-Agent alone.
\<close>

theorem requests_carry_agent_and_credential:
  "(list_all (credential_headers token) (sent (trace st))
      \<and> process_files env depth fs token path st = Some r \<longrightarrow>
    list_all (credential_headers token) (sent (trace (final_state r))))
   \<and> (\<exists>k\<le>retries.
        sent (trace (snd (get_files_from_github env u token retries st)))
          = sent (trace st) @ replicate k (request_headers token))
   \<and> map_of (request_headers token) ''User-Agent'' = Some ''GitHubScreenshoter''
   \<and> map_of (request_headers token) ''Authorization''
       = (case token of None \<Rightarrow> None
          | Some t \<Rightarrow> if t = [] then None else Some (''token '' @ t))
   \<and> (entry_type f = ''file''
        \<and> list_ex (\<lambda>ext. endswith (name f) ext) FILE_EXTENSIONS \<longrightarrow>
      (\<exists>q. process_files env (Suc d) [f] token path st = Some q
         \<and> sent (trace (final_state q))
             = sent (trace st) @ [[(''User-Agent'', ''GitHubScreenshoter'')]]))"
proof -
  have A: "list_all (credential_headers token) (sent (trace st))
      \<and> process_files env depth fs token path st = Some r \<longrightarrow>
    list_all (credential_headers token) (sent (trace (final_state r)))"
    using walk_headers by blast
  have B: "\<exists>k\<le>retries.
        sent (trace (snd (get_files_from_github env u token retries st)))
          = sent (trace st) @ replicate k (request_headers token)"
    using fetch_attempts_sent[of "[0..<retries]" env u "request_headers token" retries st]
    by (simp add: get_files_from_github_def)
  have C: "map_of (request_headers token) ''User-Agent'' = Some ''GitHubScreenshoter''"
    by (simp add: request_headers_def)
  have D: "map_of (request_headers token) ''Authorization''
       = (case token of None \<Rightarrow> None
          | Some t \<Rightarrow> if t = [] then None else Some (''token '' @ t))"
    by (simp add: request_headers_def split: option.splits)
  have E: "entry_type f = ''file''
        \<and> list_ex (\<lambda>ext. endswith (name f) ext) FILE_EXTENSIONS \<longrightarrow>
      (\<exists>q. process_files env (Suc d) [f] token path st = Some q
         \<and> sent (trace (final_state q))
             = sent (trace st) @ [[(''User-Agent'', ''GitHubScreenshoter'')]])"
    using single_download_sent by blast
  from A B C D E show ?thesis by (intro conjI)
qed

theorem requests_carry_agent_and_credential_witness:
  "list_all (credential_headers (Some ''s3cret'')) (sent (trace fresh))
   \<and> process_files sample_env (Suc (Suc 0)) [blank_txt, empty_dir] (Some ''s3cret'') [] fresh
       = Some (Inr (fresh\<lparr>trace :=
           [Get ''raw/blank.txt'' [(''User-Agent'', ''GitHubScreenshoter'')],
            Get ''api/empty'' [(''User-Agent'', ''GitHubScreenshoter''),
                               (''Authorization'', ''token s3cret'')]]\<rparr>))
   \<and> list_all (credential_headers (Some ''s3cret''))
        [[(''User-Agent'', ''GitHubScreenshoter'')],
         [(''User-Agent'', ''GitHubScreenshoter''), (''Authorization'', ''token s3cret'')]]
   \<and> entry_type blank_txt = ''file''
   \<and> list_ex (\<lambda>ext. endswith (name blank_txt) ext) FILE_EXTENSIONS
   \<and> sent (trace (final_state (the
         (process_files sample_env (Suc 0) [blank_txt] (Some ''s3cret'') [] fresh))))
       = [[(''User-Agent'', ''GitHubScreenshoter'')]]"
proof -
  have run: "process_files sample_env (Suc (Suc 0)) [blank_txt, empty_dir] (Some ''s3cret'')
        [] fresh
       = Some (Inr (fresh\<lparr>trace :=
           [Get ''raw/blank.txt'' [(''User-Agent'', ''GitHubScreenshoter'')],
            Get ''api/empty'' [(''User-Agent'', ''GitHubScreenshoter''),
                               (''Authorization'', ''token s3cret'')]]\<rparr>))"
    by (simp add: blank_txt_def empty_dir_def sample_env_def sample_net_def fresh_def
        FILE_EXTENSIONS_def endswith_def strip_def is_space_def Let_def
        get_files_from_github_def MAX_RETRIES_def range3 request_headers_def)
  have one: "process_files sample_env (Suc 0) [blank_txt] (Some ''s3cret'') [] fresh
       = Some (Inr (fresh\<lparr>trace :=
           [Get ''raw/blank.txt'' [(''User-Agent'', ''GitHubScreenshoter'')]]\<rparr>))"
    by (simp add: blank_txt_def sample_env_def sample_net_def fresh_def
        FILE_EXTENSIONS_def endswith_def strip_def is_space_def Let_def)
  have start: "list_all (credential_headers (Some ''s3cret'')) (sent (trace fresh))"
    by (simp add: fresh_def)
  have isfile: "entry_type blank_txt = ''file''"
    "list_ex (\<lambda>ext. endswith (name blank_txt) ext) FILE_EXTENSIONS"
    by (simp_all add: blank_txt_def FILE_EXTENSIONS_def endswith_def)
  from requests_carry_agent_and_credential[where token = "Some ''s3cret''" and st = fresh
      and env = sample_env and depth = "Suc (Suc 0)" and fs = "[blank_txt, empty_dir]"
      and path = "[]" and f = blank_txt and d = 0
      and r = "Inr (fresh\<lparr>trace :=
           [Get ''raw/blank.txt'' [(''User-Agent'', ''GitHubScreenshoter'')],
            Get ''api/empty'' [(''User-Agent'', ''GitHubScreenshoter''),
                               (''Authorization'', ''token s3cret'')]]\<rparr>)"]
    start run isfile
  have "list_all (credential_headers (Some ''s3cret''))
        [[(''User-Agent'', ''GitHubScreenshoter'')],
         [(''User-Agent'', ''GitHubScreenshoter''), (''Authorization'', ''token s3cret'')]]"
    by (simp add: fresh_def)
  with start run isfile one show ?thesis by (simp add: fresh_def)
qed

subsection \<open>Where the images go\<close>























end
